theory Spec2Isabelle
  imports Main "HOL-Library.Word"
begin

section \<open>Strings of the client\<close>

text \<open>
  The client is TypeScript: a string is a sequence of 16-bit code units, \<open>===\<close> on strings
  is equality of these sequences, and the empty string is the only falsy string.
\<close>

type_synonym jsstring = "16 word list"

definition js :: "string \<Rightarrow> jsstring" where
  "js s = map of_char s"

text \<open>\<open>a || b\<close> on strings: \<open>a\<close> unless it is empty.\<close>

definition or_else :: "jsstring \<Rightarrow> jsstring \<Rightarrow> jsstring" where
  "or_else a b = (if a = [] then b else a)"

text \<open>\<open>a || b\<close> where \<open>a\<close> may be \<open>undefined\<close>.\<close>

definition opt_or_else :: "jsstring option \<Rightarrow> jsstring \<Rightarrow> jsstring" where
  "opt_or_else a b = (case a of None \<Rightarrow> b | Some s \<Rightarrow> or_else s b)"

text \<open>
  \<open>String.prototype.trim\<close>: strips the code units of WhiteSpace and LineTerminator
  (ECMAScript: TAB, LF, VT, FF, CR, SP, NBSP, the Unicode space separators, LS, PS, ZWNBSP)
  from both ends.
\<close>

definition isWhiteSpace :: "16 word \<Rightarrow> bool" where
  "isWhiteSpace c \<longleftrightarrow>
     c \<in> {0x9, 0xA, 0xB, 0xC, 0xD, 0x20, 0xA0, 0x1680, 0x2028, 0x2029, 0x202F, 0x205F,
          0x3000, 0xFEFF}
     \<or> (0x2000 \<le> c \<and> c \<le> 0x200A)"

definition trim :: "jsstring \<Rightarrow> jsstring" where
  "trim s = rev (dropWhile isWhiteSpace (rev (dropWhile isWhiteSpace s)))"

definition API_URL :: jsstring where
  "API_URL = js ''http://localhost:8000''"


section \<open>frontend/src/types/index.ts\<close>

text \<open>
  The interfaces as records. \<open>number\<close> fields hold \<open>int\<close>: the integer-valued numbers.
  A field marked \<open>?\<close> is an option. The values of \<open>metadata\<close> are \<open>any\<close>; they are kept
  as opaque strings. The field \<open>notes\<close> of a Review is written \<open>notes'\<close>.
\<close>

record Review =
  agent :: jsstring
  notes' :: jsstring
  score :: int
  reasoning :: jsstring

record Scores =
  safety :: int
  clinical :: int

record GraphState =
  draft :: jsstring
  draft_history :: "jsstring list"
  reviews :: "Review list"
  scores :: Scores
  iteration_count :: int
  supervisor_feedback :: jsstring
  user_intent :: jsstring
  error :: "jsstring option"
  metadata :: "(jsstring \<times> jsstring) list option"

record Task =
  thread_id :: jsstring
  status :: jsstring
  intent :: jsstring
  created_at :: jsstring
  iterations :: int

section \<open>frontend/src/components/HumanReview.tsx\<close>

text \<open>
  The body of a resume request. \<open>edited_draft\<close> is absent (\<open>None\<close>) unless the handler
  assigns it.
\<close>

record ResumePayload =
  approved :: bool
  feedback :: jsstring
  edited_draft :: "jsstring option"

text \<open>
  The component: its props \<open>threadId\<close> and \<open>state\<close>, and its hooks. The props \<open>onComplete\<close>
  and \<open>onResuming\<close> are callbacks of the parent; calling one is an effect. The hook
  \<open>activeTab\<close> only selects what is drawn and no handler reads or writes it.
\<close>

record HumanReview =
  threadId :: jsstring
  state :: GraphState
  editedDraft :: jsstring
  feedback :: jsstring
  isProcessing :: bool

datatype hr_effect =
    OnResuming
  | OnComplete
  | Post jsstring ResumePayload
  | Alert jsstring
  | ConsoleError

text \<open>
  How the \<open>axios.post\<close> ends: it resolves, or it throws an error with
  \<open>error.response?.data?.message\<close> and \<open>error.message\<close>.
\<close>

datatype post_outcome =
    Resolved
  | Thrown "jsstring option" jsstring

text \<open>\<open>useState(state.draft)\<close>, \<open>useState('')\<close>, \<open>useState(false)\<close>.\<close>

definition mount :: "jsstring \<Rightarrow> GraphState \<Rightarrow> HumanReview" where
  "mount tid st =
     \<lparr>threadId = tid, state = st, editedDraft = draft st,
      HumanReview.feedback = [], isProcessing = False\<rparr>"

definition resume_url :: "HumanReview \<Rightarrow> jsstring" where
  "resume_url h = API_URL @ js ''/resume/'' @ threadId h"

definition handleApprove :: "HumanReview \<Rightarrow> post_outcome \<Rightarrow> HumanReview \<times> hr_effect list" where
  "handleApprove h outcome =
     (let payload =
            \<lparr>approved = True,
             ResumePayload.feedback =
               or_else (HumanReview.feedback h) (js ''Approved without additional feedback''),
             edited_draft = None\<rparr>;
          payload =
            (if editedDraft h \<noteq> draft (state h)
             then payload\<lparr>edited_draft := Some (editedDraft h)\<rparr>
             else payload)
      in case outcome of
           Resolved \<Rightarrow>
             (h\<lparr>isProcessing := True\<rparr>, [OnResuming, Post (resume_url h) payload])
         | Thrown response_message message \<Rightarrow>
             (h\<lparr>isProcessing := False\<rparr>,
              [OnResuming, Post (resume_url h) payload, ConsoleError,
               Alert (js ''Error approving draft: '' @ opt_or_else response_message message)]))"

definition handleReject :: "HumanReview \<Rightarrow> post_outcome \<Rightarrow> HumanReview \<times> hr_effect list" where
  "handleReject h outcome =
     (let payload =
            \<lparr>approved = False,
             ResumePayload.feedback =
               or_else (HumanReview.feedback h) (js ''Rejected without specific feedback''),
             edited_draft = None\<rparr>
      in case outcome of
           Resolved \<Rightarrow>
             (h\<lparr>isProcessing := True\<rparr>,
              [Post (resume_url h) payload, Alert (js ''Draft rejected. Process stopped.''),
               OnComplete])
         | Thrown response_message message \<Rightarrow>
             (h\<lparr>isProcessing := False\<rparr>,
              [Post (resume_url h) payload, ConsoleError,
               Alert (js ''Error rejecting draft: '' @ opt_or_else response_message message)]))"

text \<open>The bodies of the resume requests among the effects of a handler, in order.\<close>

fun posted :: "hr_effect list \<Rightarrow> ResumePayload list" where
  "posted [] = []"
| "posted (Post url p # es) = p # posted es"
| "posted (e # es) = posted es"

text \<open>The textarea and the history buttons: \<open>setEditedDraft\<close>, \<open>setFeedback\<close>.\<close>

definition setEditedDraft :: "jsstring \<Rightarrow> HumanReview \<Rightarrow> HumanReview" where
  "setEditedDraft v h = h\<lparr>editedDraft := v\<rparr>"

definition setFeedback :: "jsstring \<Rightarrow> HumanReview \<Rightarrow> HumanReview" where
  "setFeedback v h = h\<lparr>HumanReview.feedback := v\<rparr>"


section \<open>frontend/src/App.tsx\<close>

subsection \<open>The component and the browser around it\<close>

datatype tab = Generator | History

text \<open>
  The hooks of \<open>App\<close> that its handlers read or write, and the ref that holds the handle
  of the polling timer (\<open>None\<close> is \<open>null\<close>; a handle returned by \<open>setInterval\<close> is truthy).
\<close>

record App =
  intent :: jsstring
  threadId :: "jsstring option"
  status :: jsstring
  currentState :: "GraphState option"
  error :: "jsstring option"
  tasks :: "Task list"
  activeTab :: tab
  pollIntervalRef :: "nat option"

text \<open>
  What the handlers act on besides the hooks: the interval timers that are set and not
  cleared (\<open>live\<close>), the closure of each \<open>startPolling\<close> call (its \<open>tid\<close> and its
  \<open>pollCount\<close>, by timer handle), the polls that are awaiting their \<open>axios.get\<close>
  (\<open>inflight\<close>), and what has been sent and shown: the urls of the state requests, the
  intents posted to \<open>/invoke\<close>, the alerts.
\<close>

record Browser =
  app :: App
  live :: "nat list"
  closures :: "nat \<rightharpoonup> jsstring \<times> nat"
  inflight :: "nat list"
  nextTimer :: nat
  gets :: "jsstring list"
  invokes :: "jsstring list"
  alerts :: "jsstring list"

definition initial_app :: App where
  "initial_app =
     \<lparr>App.intent = [], App.threadId = None, App.status = js ''idle'', currentState = None,
      App.error = None, tasks = [], activeTab = Generator, pollIntervalRef = None\<rparr>"

definition initial_browser :: Browser where
  "initial_browser =
     \<lparr>app = initial_app, live = [], closures = Map.empty, inflight = [], nextTimer = 1,
      gets = [], invokes = [], alerts = []\<rparr>"

definition setIntent :: "jsstring \<Rightarrow> Browser \<Rightarrow> Browser" where
  "setIntent v b = b\<lparr>app := (app b)\<lparr>App.intent := v\<rparr>\<rparr>"

subsection \<open>Polling\<close>

definition clearInterval :: "nat \<Rightarrow> Browser \<Rightarrow> Browser" where
  "clearInterval i b = b\<lparr>live := removeAll i (live b)\<rparr>"

text \<open>
  \<open>if (pollIntervalRef.current) { clearInterval(pollIntervalRef.current);
  pollIntervalRef.current = null; }\<close>, as it stands in the poll callback (twice) and in
  \<open>handleClear\<close>.
\<close>

definition clearPoll :: "Browser \<Rightarrow> Browser" where
  "clearPoll b =
     (case pollIntervalRef (app b) of
        None \<Rightarrow> b
      | Some i \<Rightarrow> (clearInterval i b)\<lparr>app := (app b)\<lparr>pollIntervalRef := None\<rparr>\<rparr>)"

definition startPolling :: "jsstring \<Rightarrow> Browser \<Rightarrow> Browser" where
  "startPolling tid b =
     (let b1 = (case pollIntervalRef (app b) of None \<Rightarrow> b | Some i \<Rightarrow> clearInterval i b);
          i = nextTimer b1
      in b1\<lparr>app := (app b1)\<lparr>pollIntervalRef := Some i\<rparr>,
             live := i # live b1,
             closures := (closures b1)(i \<mapsto> (tid, 0)),
             nextTimer := Suc i\<rparr>)"

text \<open>
  One firing of the timer \<open>i\<close>, up to the \<open>await\<close>: \<open>pollCount++\<close> and the request is sent.
  A timer that is not live does not fire.
\<close>

definition tick :: "nat \<Rightarrow> Browser \<Rightarrow> Browser" where
  "tick i b =
     (if i \<notin> set (live b) then b
      else case closures b i of
             None \<Rightarrow> b
           | Some (tid, pollCount) \<Rightarrow>
               b\<lparr>closures := (closures b)(i \<mapsto> (tid, Suc pollCount)),
                 inflight := inflight b @ [i],
                 gets := gets b @ [API_URL @ js ''/state/'' @ tid]\<rparr>)"

text \<open>
  How a poll's \<open>axios.get\<close> ends: with \<open>response.data.status\<close> and \<open>response.data.state\<close>
  (either may be missing), or by throwing.
\<close>

datatype poll_outcome =
    Responded "jsstring option" "GraphState option"
  | Failed

definition stop_statuses :: "jsstring list" where
  "stop_statuses = [js ''completed'', js ''halted'', js ''error'', js ''rejected'']"

text \<open>The rest of the callback, run when a poll of timer \<open>i\<close> that is in flight ends.\<close>

definition settle :: "nat \<Rightarrow> poll_outcome \<Rightarrow> Browser \<Rightarrow> Browser" where
  "settle i outcome b =
     (if i \<notin> set (inflight b) then b
      else
        let b1 = b\<lparr>inflight := remove1 i (inflight b)\<rparr> in
        case outcome of
          Responded newStatus st \<Rightarrow>
            (let b2 = b1\<lparr>app := (app b1)\<lparr>App.status := opt_or_else newStatus (js ''unknown''),
                                            currentState := st\<rparr>\<rparr>
             in if opt_or_else newStatus [] \<in> set stop_statuses then clearPoll b2 else b2)
        | Failed \<Rightarrow>
            (case closures b1 i of
               None \<Rightarrow> b1
             | Some (tid, pollCount) \<Rightarrow>
                 if pollCount > 10
                 then clearPoll
                        (b1\<lparr>app := (app b1)\<lparr>App.status := js ''error'',
                                App.error := Some (js ''Polling failed after multiple attempts'')\<rparr>\<rparr>)
                 else b1))"

text \<open>What the polling loop does by itself, without the user: timers fire and polls end.\<close>

datatype poll_event = Tick nat | Settle nat poll_outcome

fun poll_step :: "Browser \<Rightarrow> poll_event \<Rightarrow> Browser" where
  "poll_step b (Tick i) = tick i b"
| "poll_step b (Settle i outcome) = settle i outcome b"

definition poll_run :: "Browser \<Rightarrow> poll_event list \<Rightarrow> Browser" where
  "poll_run b evs = foldl poll_step b evs"

subsection \<open>handleInvoke, handleClear, loadTask\<close>

text \<open>
  An error caught by \<open>handleInvoke\<close>: \<open>err.code\<close>, \<open>err.response\<close> (its \<open>status\<close>, as the
  text the template prints, and \<open>data?.message\<close>), whether \<open>err.request\<close> is set, and
  \<open>err.message\<close>.
\<close>

datatype axios_error =
  AxiosError "jsstring option" "(jsstring \<times> jsstring option) option" bool "jsstring option"

fun invoke_error_text :: "axios_error \<Rightarrow> jsstring" where
  "invoke_error_text (AxiosError code response request message) =
     (if code = Some (js ''ECONNREFUSED'')
      then js ''Cannot connect to backend. Is it running on port 8000?''
      else if code = Some (js ''ERR_NETWORK'')
      then js ''Network error. Check CORS and backend URL.''
      else case response of
             Some (st, msg) \<Rightarrow>
               js ''Backend error '' @ st @ js '': '' @ opt_or_else msg (js ''Unknown error'')
           | None \<Rightarrow>
               if request then js ''No response from backend. Check if server is running.''
               else opt_or_else message (js ''Failed to start generation''))"

text \<open>
  How the \<open>axios.post\<close> to \<open>/invoke\<close> ends: with \<open>response.data.data?.thread_id\<close>
  (possibly missing), or by throwing.
\<close>

datatype invoke_outcome =
    Answered "jsstring option"
  | Threw axios_error

definition invoke_failed :: "axios_error \<Rightarrow> Browser \<Rightarrow> Browser" where
  "invoke_failed err b =
     b\<lparr>app := (app b)\<lparr>App.error := Some (invoke_error_text err), App.status := js ''error''\<rparr>\<rparr>"

definition handleInvoke :: "invoke_outcome \<Rightarrow> Browser \<Rightarrow> Browser" where
  "handleInvoke outcome b =
     (if trim (App.intent (app b)) = []
      then b\<lparr>alerts := alerts b @ [js ''Please enter an intent'']\<rparr>
      else
        let b1 = b\<lparr>app := (app b)\<lparr>App.status := js ''processing'', App.error := None,
                                    currentState := None\<rparr>,
                    invokes := invokes b @ [trim (App.intent (app b))]\<rparr>
        in case outcome of
             Answered newThreadId \<Rightarrow>
               (if opt_or_else newThreadId [] \<noteq> []
                then startPolling (opt_or_else newThreadId [])
                       (b1\<lparr>app := (app b1)\<lparr>App.threadId := newThreadId\<rparr>\<rparr>)
                else invoke_failed
                       (AxiosError None None False (Some (js ''No thread_id in response''))) b1)
           | Threw err \<Rightarrow> invoke_failed err b1)"

definition handleClear :: "Browser \<Rightarrow> Browser" where
  "handleClear b =
     (let b1 = clearPoll b
      in b1\<lparr>app := (app b1)\<lparr>App.status := js ''idle'', App.threadId := None,
                             currentState := None, App.error := None\<rparr>\<rparr>)"

text \<open>
  How the \<open>axios.get\<close> of \<open>loadTask\<close> ends: with the \<open>state\<close> of
  \<open>response.data.data || {}\<close> (possibly missing), or by throwing.
\<close>

datatype load_outcome =
    Loaded "GraphState option"
  | LoadFailed

definition loadTask :: "Task \<Rightarrow> load_outcome \<Rightarrow> Browser \<Rightarrow> Browser" where
  "loadTask task outcome b =
     (let b1 = b\<lparr>app := (app b)\<lparr>App.threadId := Some (thread_id task),
                                 App.status := Task.status task,
                                 activeTab := Generator\<rparr>,
                    gets := gets b @ [API_URL @ js ''/state/'' @ thread_id task]\<rparr>
      in case outcome of
           Loaded st \<Rightarrow>
             (let b2 = b1\<lparr>app := (app b1)\<lparr>currentState := st\<rparr>\<rparr>
              in if Task.status task = js ''running'' \<or> Task.status task = js ''halted''
                 then startPolling (thread_id task) b2 else b2)
         | LoadFailed \<Rightarrow> b1\<lparr>app := (app b1)\<lparr>App.error := Some (js ''Failed to load task'')\<rparr>\<rparr>)"

subsection \<open>fetchTasks\<close>

text \<open>
  \<open>Array.prototype.sort\<close> with a comparator. A comparator result of \<open>NaN\<close> (here \<open>None\<close>)
  makes the comparator inconsistent. ECMAScript fixes the result only for a comparator that
  is consistent on the elements: the sort is stable, so the result is the stable insertion
  below. Otherwise the order is implementation-defined: it is what the engine's sort
  makes of it, the parameter \<open>engineSort\<close>.
\<close>

definition sort_value :: "int option \<Rightarrow> int" where
  "sort_value v = (case v of None \<Rightarrow> 0 | Some n \<Rightarrow> n)"

text \<open>
  A consistent comparator on the elements of \<open>xs\<close> (ECMAScript, Array.prototype.sort): no
  result is \<open>NaN\<close>; "equal" is reflexive, symmetric and transitive; "less" and "greater"
  are transitive.
\<close>

definition consistent :: "('a \<Rightarrow> 'a \<Rightarrow> int option) \<Rightarrow> 'a list \<Rightarrow> bool" where
  "consistent cmp xs \<longleftrightarrow>
     list_all (\<lambda>a. list_all (\<lambda>b. cmp a b \<noteq> None) xs) xs
     \<and> list_all (\<lambda>a. sort_value (cmp a a) = 0) xs
     \<and> list_all (\<lambda>a. list_all (\<lambda>b.
          sort_value (cmp a b) = 0 \<longrightarrow> sort_value (cmp b a) = 0) xs) xs
     \<and> list_all (\<lambda>a. list_all (\<lambda>b. list_all (\<lambda>c.
          (sort_value (cmp a b) = 0 \<and> sort_value (cmp b c) = 0 \<longrightarrow> sort_value (cmp a c) = 0)
          \<and> (sort_value (cmp a b) < 0 \<and> sort_value (cmp b c) < 0 \<longrightarrow> sort_value (cmp a c) < 0)
          \<and> (sort_value (cmp a b) > 0 \<and> sort_value (cmp b c) > 0 \<longrightarrow> sort_value (cmp a c) > 0))
          xs) xs) xs"

fun insert_by :: "('a \<Rightarrow> 'a \<Rightarrow> int option) \<Rightarrow> 'a \<Rightarrow> 'a list \<Rightarrow> 'a list" where
  "insert_by cmp x [] = [x]"
| "insert_by cmp x (y # ys) =
     (if sort_value (cmp x y) \<le> 0 then x # y # ys else y # insert_by cmp x ys)"

definition array_sort ::
  "(('a \<Rightarrow> 'a \<Rightarrow> int option) \<Rightarrow> 'a list \<Rightarrow> 'a list) \<Rightarrow> ('a \<Rightarrow> 'a \<Rightarrow> int option) \<Rightarrow> 'a list \<Rightarrow> 'a list" where
  "array_sort engineSort cmp xs =
     (if consistent cmp xs then foldr (insert_by cmp) xs [] else engineSort cmp xs)"

text \<open>
  \<open>new Date(s).getTime()\<close> is the parameter \<open>getTime\<close>: the time value in milliseconds, or
  \<open>None\<close> for \<open>NaN\<close>, the time of an invalid date. The comparator of \<open>fetchTasks\<close> is
  \<open>getTime(b.created_at) - getTime(a.created_at)\<close>, \<open>NaN\<close> when either is.
\<close>

definition by_created_desc :: "(jsstring \<Rightarrow> int option) \<Rightarrow> Task \<Rightarrow> Task \<Rightarrow> int option" where
  "by_created_desc getTime a b =
     (case (getTime (created_at b), getTime (created_at a)) of
        (Some tb, Some ta) \<Rightarrow> Some (tb - ta)
      | _ \<Rightarrow> None)"

text \<open>
  A task as the server sends it, under its thread id: \<open>status\<close>, \<open>intent\<close> (possibly
  missing), \<open>created_at\<close>, \<open>iterations\<close> (possibly missing).
\<close>

type_synonym raw_task = "jsstring \<times> jsstring option \<times> jsstring \<times> int option"

definition to_task :: "jsstring \<times> raw_task \<Rightarrow> Task" where
  "to_task e =
     (case e of (tid, st, it, ca, n) \<Rightarrow>
        \<lparr>thread_id = tid, Task.status = st, Task.intent = opt_or_else it (js ''Unknown''),
         created_at = ca, iterations = (case n of None \<Rightarrow> 0 | Some k \<Rightarrow> k)\<rparr>)"

text \<open>
  How the \<open>axios.get\<close> of \<open>/tasks\<close> ends: with \<open>response.data.success\<close> and the entries of
  \<open>response.data.data?.tasks\<close> in the order of \<open>Object.entries\<close> (\<open>None\<close> when the object
  is missing), or by throwing.
\<close>

datatype tasks_outcome =
    Listed bool "(jsstring \<times> raw_task) list option"
  | ListFailed

definition fetchTasks ::
  "((Task \<Rightarrow> Task \<Rightarrow> int option) \<Rightarrow> Task list \<Rightarrow> Task list) \<Rightarrow> (jsstring \<Rightarrow> int option) \<Rightarrow>
     tasks_outcome \<Rightarrow> Browser \<Rightarrow> Browser" where
  "fetchTasks engineSort getTime outcome b =
     (case outcome of
        Listed success (Some entries) \<Rightarrow>
          (if success
           then b\<lparr>app := (app b)\<lparr>tasks :=
                  array_sort engineSort (by_created_desc getTime) (map to_task entries)\<rparr>\<rparr>
           else b)
      | _ \<Rightarrow> b)"


section \<open>The workflow engine\<close>

text \<open>
  The engine (graph.py, main.py) is not among the sources; only the client and the README
  are. What follows is modelled from the specification, sections 3, 4 and 6.
\<close>

text \<open>
  Modelled from the spec: the GraphState of section 3, which the engine persists. It is the
  client's GraphState with the field \<open>human_decision: optional { approved, feedback,
  edited_draft }\<close>, the shape of a resume request.
\<close>

record EngineState = GraphState +
  human_decision :: "ResumePayload option"

text \<open>Modelled from the spec: the results of \<open>route\<close> (section 4.4).\<close>

datatype transition = Revise | Halt | Finalize | Rejected

text \<open>
  Modelled from the spec: "\<open>error\<close> is non-empty" (section 4.4, rule 1), for the optional
  text \<open>error\<close>: it is set, and to a text that is not empty.
\<close>

definition has_error :: "EngineState \<Rightarrow> bool" where
  "has_error s = (case GraphState.error s of None \<Rightarrow> False | Some e \<Rightarrow> e \<noteq> [])"

text \<open>
  Modelled from the spec: the router of section 4.4, its seven rules in their order, first
  match wins. (The README describes \<open>supervisor_router\<close> by the same conditions in the same
  order, with a flag \<open>human_approved\<close> and without the rejection.)
\<close>

definition route :: "EngineState \<Rightarrow> transition" where
  "route s =
     (if has_error s then Halt
      else if map_option approved (human_decision s) = Some True then Finalize
      else if map_option approved (human_decision s) = Some False then Rejected
      else if safety (scores s) \<ge> 9 \<and> clinical (scores s) \<ge> 8 then Halt
      else if iteration_count s \<ge> 3 \<or> safety (scores s) < 6 then Halt
      else if safety (scores s) < 8 \<or> clinical (scores s) < 7 then Revise
      else Halt)"

text \<open>Modelled from the spec: the status of a ThreadRecord (section 3).\<close>

datatype thread_status =
  StCreated | StRunning | StHalted | StResuming | StCompleted | StRejected | StError

text \<open>
  Modelled from the spec: the nodes of the fixed cycle (sections 2 and 4), the Router
  being evaluated at the end of a node's step; \<open>End\<close> is the terminal.
\<close>

datatype node = Drafter | ReviewerPool | SupervisorSynthesizer | HaltController | End

text \<open>
  Modelled from the spec: a thread as its runner sees it: the node the cursor is at, the
  status of the ThreadRecord, and the GraphState.
\<close>

record Runner =
  at :: node
  run_status :: thread_status
  graph :: EngineState

text \<open>
  Modelled from the spec: how an Agent Capability fails (section 6), and the text recorded
  into \<open>state.error\<close> for it (section 7).
\<close>

datatype agent_failure = ParseFailure | Timeout

fun failure_text :: "agent_failure \<Rightarrow> jsstring" where
  "failure_text ParseFailure = js ''ParseFailure''"
| "failure_text Timeout = js ''Timeout''"

text \<open>
  Modelled from the spec: what can happen to a thread: the agent of the node at the cursor
  returns (a failure or its result), the runner continues after a resume, or a resume call
  arrives.
\<close>

datatype engine_event =
    DrafterReturns "agent_failure + jsstring"
  | ReviewersReturn "agent_failure + Review" "agent_failure + Review"
  | SynthesizerReturns "agent_failure + jsstring"
  | Continue
  | ResumeCall ResumePayload

datatype engine_error = InvalidInput | InvalidState | NotFound

text \<open>
  Modelled from the spec: \<open>invoke\<close> (section 6): fails with InvalidInput if the intent is
  empty, otherwise creates the thread, running, with the cursor at the Drafter.
\<close>

definition invoke :: "jsstring \<Rightarrow> engine_error + Runner" where
  "invoke user_intent' =
     (if user_intent' = [] then Inl InvalidInput
      else Inr \<lparr>at = Drafter, run_status = StRunning,
                graph = \<lparr>draft = [], draft_history = [], reviews = [],
                         scores = \<lparr>safety = 0, clinical = 0\<rparr>, iteration_count = 0,
                         supervisor_feedback = [], user_intent = user_intent',
                         GraphState.error = None, metadata = None, human_decision = None\<rparr>\<rparr>)"

text \<open>
  Modelled from the spec: the transitions out of the Router (section 4.4): \<open>revise\<close> goes
  to the Drafter, \<open>halt\<close> to the HaltController with status halted, \<open>finalize\<close> and
  \<open>rejected\<close> are terminal.
\<close>

definition router :: "Runner \<Rightarrow> Runner" where
  "router r =
     (case route (graph r) of
        Revise \<Rightarrow> r\<lparr>at := Drafter\<rparr>
      | Halt \<Rightarrow> r\<lparr>at := HaltController, run_status := StHalted\<rparr>
      | Finalize \<Rightarrow> r\<lparr>at := End, run_status := StCompleted\<rparr>
      | Rejected \<Rightarrow> r\<lparr>at := End, run_status := StRejected\<rparr>)"

text \<open>
  Modelled from the spec: an agent failure sets \<open>error\<close> and short-circuits the rest of the
  cycle to the Router (sections 4.1, 4.2, 7).
\<close>

definition agent_failed :: "agent_failure \<Rightarrow> Runner \<Rightarrow> Runner" where
  "agent_failed f r = router (r\<lparr>graph := (graph r)\<lparr>GraphState.error := Some (failure_text f)\<rparr>\<rparr>)"

text \<open>
  Modelled from the spec: the point of a cycle at which \<open>iteration_count\<close> is incremented.
  Section 4.1 leaves it to be picked ("pick one consistent point and apply it once per
  cycle"): with the Drafter pass (section 3: the number of Drafter passes since creation)
  or when the cycle completes (sections 3 and 9: the number of completed cycles).
\<close>

datatype count_point = WithDrafter | AtCycleEnd

definition counted :: "count_point \<Rightarrow> count_point \<Rightarrow> int" where
  "counted p here = (if p = here then 1 else 0)"

text \<open>
  Modelled from the spec: the Drafter (section 4.1): the new draft replaces \<open>draft\<close> and is
  appended to \<open>draft_history\<close>.
\<close>

definition drafter :: "count_point \<Rightarrow> agent_failure + jsstring \<Rightarrow> Runner \<Rightarrow> Runner" where
  "drafter p result r =
     (case result of
        Inl f \<Rightarrow> agent_failed f r
      | Inr d \<Rightarrow>
          r\<lparr>at := ReviewerPool,
            graph := (graph r)\<lparr>draft := d, draft_history := draft_history (graph r) @ [d],
                               iteration_count := iteration_count (graph r) + counted p WithDrafter\<rparr>\<rparr>)"

text \<open>
  Modelled from the spec: the schema of a Review (section 3): the score is an integer in
  0..10. An agent's result that is not schema-valid is a failure (sections 2 and 4.2).
\<close>

definition valid_review :: "Review \<Rightarrow> bool" where
  "valid_review x \<longleftrightarrow> 0 \<le> score x \<and> score x \<le> 10"

text \<open>
  Modelled from the spec: the ReviewerPool (section 4.2): both reviews, validated, or a
  failed cycle; \<open>reviews\<close> is replaced by the two, safety first, and \<open>scores\<close> recomputed
  from them.
\<close>

definition reviewer_pool :: "agent_failure + Review \<Rightarrow> agent_failure + Review \<Rightarrow> Runner \<Rightarrow> Runner" where
  "reviewer_pool safety_result clinical_result r =
     (case (safety_result, clinical_result) of
        (Inr s, Inr c) \<Rightarrow>
          if valid_review s \<and> valid_review c
          then r\<lparr>at := SupervisorSynthesizer,
                 graph := (graph r)\<lparr>reviews := [s, c],
                                    scores := \<lparr>safety = score s, clinical = score c\<rparr>\<rparr>\<rparr>
          else agent_failed ParseFailure r
      | (Inl f, _) \<Rightarrow> agent_failed f r
      | (_, Inl f) \<Rightarrow> agent_failed f r)"

text \<open>
  Modelled from the spec: the SupervisorSynthesizer (section 4.3) on the path of a cycle:
  a non-empty feedback replaces \<open>supervisor_feedback\<close>, or \<open>error\<close> is set. The cycle is then
  complete: \<open>error\<close> is cleared (section 3), and the Router decides.
\<close>

definition supervisor_synthesizer :: "count_point \<Rightarrow> agent_failure + jsstring \<Rightarrow> Runner \<Rightarrow> Runner" where
  "supervisor_synthesizer p result r =
     (case result of
        Inl f \<Rightarrow> agent_failed f r
      | Inr fb \<Rightarrow>
          if fb = [] then agent_failed ParseFailure r
          else router
                 (r\<lparr>graph := (graph r)\<lparr>supervisor_feedback := fb,
                                         iteration_count :=
                                           iteration_count (graph r) + counted p AtCycleEnd,
                                         GraphState.error := None\<rparr>\<rparr>))"

text \<open>
  Modelled from the spec: resume (section 4.5): fails with InvalidState unless the thread is
  halted; sets \<open>human_decision\<close>; an \<open>edited_draft\<close> that is present and differs from
  \<open>draft\<close> is appended to \<open>draft_history\<close> and becomes \<open>draft\<close>; the status becomes resuming
  and the cursor re-enters at the SupervisorSynthesizer.
\<close>

definition resume :: "ResumePayload \<Rightarrow> Runner \<Rightarrow> engine_error + Runner" where
  "resume d r =
     (if run_status r \<noteq> StHalted then Inl InvalidState
      else
        let g = (graph r)\<lparr>human_decision := Some d\<rparr>;
            g = (case edited_draft d of
                   None \<Rightarrow> g
                 | Some e \<Rightarrow>
                     if e \<noteq> draft g
                     then g\<lparr>draft := e, draft_history := draft_history g @ [e]\<rparr>
                     else g)
        in Inr (r\<lparr>at := SupervisorSynthesizer, run_status := StResuming, graph := g\<rparr>))"

text \<open>
  Modelled from the spec: one step of a thread. An event that the node at the cursor does
  not await leaves the thread as it is; so does a resume call that fails. At the
  SupervisorSynthesizer a thread with a \<open>human_decision\<close> attached passes through to the
  Router (section 4.3).
\<close>

fun engine_step :: "count_point \<Rightarrow> Runner \<Rightarrow> engine_event \<Rightarrow> Runner" where
  "engine_step p r (DrafterReturns result) = (if at r = Drafter then drafter p result r else r)"
| "engine_step p r (ReviewersReturn s c) =
     (if at r = ReviewerPool then reviewer_pool s c r else r)"
| "engine_step p r (SynthesizerReturns result) =
     (if at r = SupervisorSynthesizer \<and> human_decision (graph r) = None
      then supervisor_synthesizer p result r else r)"
| "engine_step p r Continue =
     (if at r = SupervisorSynthesizer \<and> human_decision (graph r) \<noteq> None then router r else r)"
| "engine_step p r (ResumeCall d) = (case resume d r of Inl e \<Rightarrow> r | Inr r' \<Rightarrow> r')"

definition engine_run :: "count_point \<Rightarrow> Runner \<Rightarrow> engine_event list \<Rightarrow> Runner" where
  "engine_run p r evs = foldl (engine_step p) r evs"


section \<open>Vocabulary of the properties\<close>

text \<open>At most one polling timer is live, and the ref holds its handle.\<close>

definition one_timer :: "Browser \<Rightarrow> bool" where
  "one_timer b \<longleftrightarrow> set (live b) \<subseteq> set_option (pollIntervalRef (app b))"

text \<open>
  Everything that can happen to the page: the polling loop moves, or the user types an
  intent, starts a generation, clears, loads a task from the history, or the task list is
  fetched (with what the engine's sort does to an inconsistent comparator). A handler runs
  as one step, with the way its request ends.
\<close>

datatype app_event =
    Poll poll_event
  | SetIntent jsstring
  | Invoke invoke_outcome
  | Clear
  | Load Task load_outcome
  | Fetch "(Task \<Rightarrow> Task \<Rightarrow> int option) \<Rightarrow> Task list \<Rightarrow> Task list" tasks_outcome

fun app_step :: "(jsstring \<Rightarrow> int option) \<Rightarrow> Browser \<Rightarrow> app_event \<Rightarrow> Browser" where
  "app_step getTime b (Poll e) = poll_step b e"
| "app_step getTime b (SetIntent v) = setIntent v b"
| "app_step getTime b (Invoke outcome) = handleInvoke outcome b"
| "app_step getTime b Clear = handleClear b"
| "app_step getTime b (Load task outcome) = loadTask task outcome b"
| "app_step getTime b (Fetch engineSort outcome) = fetchTasks engineSort getTime outcome b"

definition app_run :: "(jsstring \<Rightarrow> int option) \<Rightarrow> Browser \<Rightarrow> app_event list \<Rightarrow> Browser" where
  "app_run getTime b evs = foldl (app_step getTime) b evs"

text \<open>The task's \<open>created_at\<close> is a date.\<close>

definition dated :: "(jsstring \<Rightarrow> int option) \<Rightarrow> Task \<Rightarrow> bool" where
  "dated getTime t \<longleftrightarrow> getTime (created_at t) \<noteq> None"

text \<open>Both tasks are dated and \<open>a\<close> was created no earlier than \<open>b\<close>.\<close>

definition newer_first :: "(jsstring \<Rightarrow> int option) \<Rightarrow> Task \<Rightarrow> Task \<Rightarrow> bool" where
  "newer_first getTime a b \<longleftrightarrow>
     (case (getTime (created_at a), getTime (created_at b)) of
        (Some ta, Some tb) \<Rightarrow> tb \<le> ta
      | _ \<Rightarrow> False)"


text \<open>An engine's sort that leaves a list it cannot order as it is.\<close>

definition leave_in_place :: "('a \<Rightarrow> 'a \<Rightarrow> int option) \<Rightarrow> 'a list \<Rightarrow> 'a list" where
  "leave_in_place cmp xs = xs"


section \<open>Sample data\<close>

definition halted_state :: GraphState where
  "halted_state =
     \<lparr>draft = js ''Breathe in.'',
      draft_history = [js ''Breathe in.''],
      reviews =
        [\<lparr>agent = js ''SafetyGuardian'', notes' = js ''ok'', score = 9, reasoning = js ''safe''\<rparr>,
         \<lparr>agent = js ''ClinicalCritic'', notes' = js ''ok'', score = 8, reasoning = js ''sound''\<rparr>],
      scores = \<lparr>safety = 9, clinical = 8\<rparr>,
      iteration_count = 1,
      supervisor_feedback = js ''fine'',
      user_intent = js ''Design a panic attack grounding exercise'',
      error = None,
      metadata = None\<rparr>"

definition edited_review :: HumanReview where
  "edited_review = setEditedDraft (js ''Breathe out.'') (mount (js ''thread_1'') halted_state)"


definition rejected_edit :: ResumePayload where
  "rejected_edit =
     \<lparr>approved = False, ResumePayload.feedback = js ''too vague'',
      edited_draft = Some (js ''Breathe out.'')\<rparr>"

definition started :: Runner where
  "started =
     \<lparr>at = Drafter, run_status = StRunning,
      graph = \<lparr>draft = [], draft_history = [], reviews = [],
               scores = \<lparr>safety = 0, clinical = 0\<rparr>, iteration_count = 0,
               supervisor_feedback = [],
               user_intent = js ''Design a panic attack grounding exercise'',
               GraphState.error = None, metadata = None, human_decision = None\<rparr>\<rparr>"

definition first_cycle :: "engine_event list" where
  "first_cycle =
     [DrafterReturns (Inr (js ''Breathe in.'')),
      ReviewersReturn
        (Inr \<lparr>agent = js ''SafetyGuardian'', notes' = js ''ok'', score = 9, reasoning = js ''safe''\<rparr>)
        (Inr \<lparr>agent = js ''ClinicalCritic'', notes' = js ''ok'', score = 8, reasoning = js ''sound''\<rparr>),
      SynthesizerReturns (Inr (js ''fine''))]"

definition failed_and_approved :: EngineState where
  "failed_and_approved =
     \<lparr>draft = js ''Breathe in.'', draft_history = [js ''Breathe in.''], reviews = [],
      scores = \<lparr>safety = 7, clinical = 6\<rparr>, iteration_count = 1,
      supervisor_feedback = js ''fine'',
      user_intent = js ''Design a panic attack grounding exercise'',
      GraphState.error = Some (js ''Timeout''), metadata = None,
      human_decision =
        Some \<lparr>approved = True, ResumePayload.feedback = js ''good'', edited_draft = None\<rparr>\<rparr>"

definition polling_history :: "app_event list" where
  "polling_history =
     [SetIntent (js ''Design a panic attack grounding exercise''),
      Invoke (Answered (Some (js ''thread_1''))),
      Poll (Tick 1),
      Poll (Settle 1 (Responded (Some (js ''running'')) None)),
      Poll (Tick 1)]"

definition sample_getTime :: "jsstring \<Rightarrow> int option" where
  "sample_getTime s =
     (if s = js ''2025-01-01T00:00:00Z'' then Some 1735689600000
      else if s = js ''2025-01-02T00:00:00Z'' then Some 1735776000000
      else if s = js ''2025-01-03T00:00:00Z'' then Some 1735862400000
      else None)"

definition mixed_entries :: "(jsstring \<times> raw_task) list" where
  "mixed_entries =
     [(js ''thread_a'', js ''completed'', Some (js ''first''), js ''2025-01-01T00:00:00Z'', Some 2),
      (js ''thread_b'', js ''halted'', None, js ''yesterday'', None),
      (js ''thread_c'', js ''running'', Some [], js ''2025-01-03T00:00:00Z'', Some 0)]"

definition out_of_range_reviews :: "engine_event list" where
  "out_of_range_reviews =
     [DrafterReturns (Inr (js ''Breathe in.'')),
      ReviewersReturn
        (Inr \<lparr>agent = js ''SafetyGuardian'', notes' = js ''ok'', score = 11, reasoning = js ''safe''\<rparr>)
        (Inr \<lparr>agent = js ''ClinicalCritic'', notes' = js ''ok'', score = 8, reasoning = js ''sound''\<rparr>)]"

definition sample_entries :: "(jsstring \<times> raw_task) list" where
  "sample_entries =
     [(js ''thread_a'', js ''completed'', Some (js ''first''), js ''2025-01-02T00:00:00Z'', Some 2),
      (js ''thread_b'', js ''halted'', None, js ''2025-01-03T00:00:00Z'', None),
      (js ''thread_c'', js ''running'', Some [], js ''2025-01-01T00:00:00Z'', Some 0)]"


section \<open>The resume request of the review screen\<close>

lemma js_eq_Nil [simp]: "js s = [] \<longleftrightarrow> s = []"
  by (simp add: js_def)

lemma or_else_eq_Nil [simp]: "or_else a b = [] \<longleftrightarrow> a = [] \<and> b = []"
  by (simp add: or_else_def)

lemma posted_handleApprove:
  "posted (snd (handleApprove h outcome)) =
     [\<lparr>approved = True,
       ResumePayload.feedback =
         or_else (HumanReview.feedback h) (js ''Approved without additional feedback''),
       edited_draft = (if editedDraft h \<noteq> draft (state h) then Some (editedDraft h) else None)\<rparr>]"
  by (cases outcome) (simp_all add: handleApprove_def Let_def)

lemma posted_handleReject:
  "posted (snd (handleReject h outcome)) =
     [\<lparr>approved = False,
       ResumePayload.feedback =
         or_else (HumanReview.feedback h) (js ''Rejected without specific feedback''),
       edited_draft = None\<rparr>]"
  by (cases outcome) (simp_all add: handleReject_def Let_def)

text \<open>
  C8. An approval sends exactly one resume request; its body has an \<open>edited_draft\<close> field if
  and only if the text in the editor differs from \<open>state.draft\<close>, the field then holds the
  editor's text, and no request of the screen, approval or rejection, carries an
  \<open>edited_draft\<close> equal to \<open>state.draft\<close>.
\<close>

theorem approve_edited_draft_iff_differs:
  "map edited_draft (posted (snd (handleApprove h outcome))) =
     [if editedDraft h \<noteq> draft (state h) then Some (editedDraft h) else None]
   \<and> (list_all (\<lambda>p. edited_draft p \<noteq> None) (posted (snd (handleApprove h outcome)))
        \<longleftrightarrow> editedDraft h \<noteq> draft (state h))
   \<and> Some (draft (state h)) \<notin>
        set (map edited_draft
              (posted (snd (handleApprove h outcome)) @ posted (snd (handleReject h outcome'))))"
  by (simp add: posted_handleApprove posted_handleReject)

theorem approve_edited_draft_iff_differs_witness:
  "map edited_draft (posted (snd (handleApprove edited_review Resolved))) = [Some (js ''Breathe out.'')]
   \<and> map edited_draft
        (posted (snd (handleApprove (mount (js ''thread_1'') halted_state) Resolved))) = [None]"
  using approve_edited_draft_iff_differs [of edited_review Resolved Resolved]
    approve_edited_draft_iff_differs [of "mount (js ''thread_1'') halted_state" Resolved Resolved]
  by (simp add: edited_review_def setEditedDraft_def mount_def halted_state_def js_def)

text \<open>
  C9. Every resume request of the screen carries a non-empty \<open>feedback\<close>: the text of the
  feedback box, or, when the box is empty, "Approved without additional feedback" on
  approval and "Rejected without specific feedback" on rejection.
\<close>

theorem resume_feedback_nonempty:
  "map ResumePayload.feedback (posted (snd (handleApprove h outcome))) =
     [if HumanReview.feedback h = [] then js ''Approved without additional feedback''
      else HumanReview.feedback h]
   \<and> map ResumePayload.feedback (posted (snd (handleReject h outcome))) =
     [if HumanReview.feedback h = [] then js ''Rejected without specific feedback''
      else HumanReview.feedback h]
   \<and> [] \<notin> set (map ResumePayload.feedback
                 (posted (snd (handleApprove h outcome)) @ posted (snd (handleReject h outcome'))))"
  by (simp add: posted_handleApprove posted_handleReject or_else_def js_def)

theorem resume_feedback_nonempty_witness:
  "map ResumePayload.feedback (posted (snd (handleApprove edited_review Resolved))) =
     [js ''Approved without additional feedback'']
   \<and> map ResumePayload.feedback
        (posted (snd (handleReject (setFeedback (js ''too vague'') edited_review) Resolved))) =
     [js ''too vague'']"
  using resume_feedback_nonempty [of edited_review Resolved Resolved]
    resume_feedback_nonempty [of "setFeedback (js ''too vague'') edited_review" Resolved Resolved]
  by (simp add: edited_review_def setEditedDraft_def setFeedback_def mount_def js_def)

section \<open>The intent that is submitted\<close>

lemma dropWhile_all_iff: "(\<forall>x\<in>set (dropWhile P s). P x) \<longleftrightarrow> (\<forall>x\<in>set s. P x)"
proof
  assume a: "\<forall>x\<in>set (dropWhile P s). P x"
  have "dropWhile P s = []"
  proof (rule ccontr)
    assume n: "dropWhile P s \<noteq> []"
    then have "\<not> P (hd (dropWhile P s))" by (rule hd_dropWhile)
    moreover from n have "hd (dropWhile P s) \<in> set (dropWhile P s)" by simp
    ultimately show False using a by blast
  qed
  then show "\<forall>x\<in>set s. P x" by (simp add: dropWhile_eq_Nil_conv)
next
  assume "\<forall>x\<in>set s. P x"
  then show "\<forall>x\<in>set (dropWhile P s). P x" by (meson set_dropWhileD)
qed

text \<open>\<open>trim\<close> leaves nothing exactly of the strings that are empty or all whitespace.\<close>

lemma trim_eq_Nil_iff: "trim s = [] \<longleftrightarrow> list_all isWhiteSpace s"
  by (simp add: trim_def dropWhile_eq_Nil_conv list_all_iff dropWhile_all_iff)

text \<open>What \<open>trim\<close> removes is whitespace around the result, \<dots>\<close>

lemma trim_decomposition:
  "\<exists>pre post. s = pre @ trim s @ post \<and> list_all isWhiteSpace pre \<and> list_all isWhiteSpace post"
proof -
  let ?m = "dropWhile isWhiteSpace s"
  have a: "s = takeWhile isWhiteSpace s @ ?m" by simp
  have b: "rev ?m = takeWhile isWhiteSpace (rev ?m) @ dropWhile isWhiteSpace (rev ?m)" by simp
  have "?m = rev (dropWhile isWhiteSpace (rev ?m)) @ rev (takeWhile isWhiteSpace (rev ?m))"
    by (metis b rev_append rev_rev_ident)
  then have c: "?m = trim s @ rev (takeWhile isWhiteSpace (rev ?m))"
    by (simp add: trim_def)
  have d: "list_all isWhiteSpace (takeWhile isWhiteSpace s)"
    by (simp add: list_all_iff) (meson set_takeWhileD)
  have e: "list_all isWhiteSpace (rev (takeWhile isWhiteSpace (rev ?m)))"
    by (simp add: list_all_iff) (meson set_takeWhileD)
  from a c have "s = takeWhile isWhiteSpace s @ trim s @ rev (takeWhile isWhiteSpace (rev ?m))"
    by metis
  with d e show ?thesis by blast
qed

text \<open>\<dots> and the result neither starts nor ends with whitespace.\<close>

lemma trim_ends:
  assumes "trim s \<noteq> []"
  shows "\<not> isWhiteSpace (hd (trim s)) \<and> \<not> isWhiteSpace (last (trim s))"
proof -
  let ?m = "dropWhile isWhiteSpace s"
  let ?r = "dropWhile isWhiteSpace (rev ?m)"
  from assms have r: "?r \<noteq> []" by (simp add: trim_def)
  have m: "?m \<noteq> []"
  proof
    assume e: "?m = []"
    have "?r = []" unfolding e by simp
    with r show False by blast
  qed
  have "last (trim s) = hd ?r" using r by (simp add: trim_def last_rev)
  moreover have "\<not> isWhiteSpace (hd ?r)" using r by (rule hd_dropWhile)
  ultimately have l: "\<not> isWhiteSpace (last (trim s))" by simp
  have nm: "\<not> isWhiteSpace (hd ?m)" using m by (rule hd_dropWhile)
  obtain pre where p: "rev ?m = pre @ ?r"
    by (metis takeWhile_dropWhile_id)
  have "last ?r = last (rev ?m)" using p r by (metis last_appendR)
  then have "hd (trim s) = hd ?m" using r m by (simp add: trim_def hd_rev last_rev)
  with nm l show ?thesis by simp
qed

text \<open>
  C4. When the intent is empty or all whitespace, \<open>handleInvoke\<close> only shows the alert
  "Please enter an intent": it posts nothing to \<open>/invoke\<close>, the thread id of the page stays
  as it was and no polling timer is started. Otherwise it posts exactly one request, whose
  intent is the input trimmed: the input without the whitespace around it.
\<close>

theorem handleInvoke_intent:
  "(list_all isWhiteSpace (App.intent (app b)) \<longrightarrow>
      handleInvoke outcome b = b\<lparr>alerts := alerts b @ [js ''Please enter an intent'']\<rparr>
      \<and> invokes (handleInvoke outcome b) = invokes b
      \<and> App.threadId (app (handleInvoke outcome b)) = App.threadId (app b)
      \<and> live (handleInvoke outcome b) = live b)
   \<and> (\<not> list_all isWhiteSpace (App.intent (app b)) \<longrightarrow>
      invokes (handleInvoke outcome b) = invokes b @ [trim (App.intent (app b))]
      \<and> (\<exists>pre post. App.intent (app b) = pre @ trim (App.intent (app b)) @ post
            \<and> list_all isWhiteSpace pre \<and> list_all isWhiteSpace post)
      \<and> \<not> isWhiteSpace (hd (trim (App.intent (app b))))
      \<and> \<not> isWhiteSpace (last (trim (App.intent (app b)))))"
proof (cases "trim (App.intent (app b)) = []")
  case True
  then show ?thesis by (simp add: trim_eq_Nil_iff [symmetric] handleInvoke_def)
next
  case False
  have "invokes (handleInvoke outcome b) = invokes b @ [trim (App.intent (app b))]"
    using False
    by (cases outcome)
       (simp_all add: handleInvoke_def Let_def startPolling_def clearInterval_def invoke_failed_def
             split: option.splits)
  with False trim_decomposition [of "App.intent (app b)"] trim_ends [OF False]
  show ?thesis by (simp add: trim_eq_Nil_iff [symmetric])
qed

theorem handleInvoke_intent_witness:
  "list_all isWhiteSpace (App.intent (app (setIntent (js ''   '') initial_browser)))
   \<and> invokes (handleInvoke (Answered (Some (js ''thread_1'')))
                (setIntent (js ''   '') initial_browser)) = []
   \<and> App.threadId (app (handleInvoke (Answered (Some (js ''thread_1'')))
                          (setIntent (js ''   '') initial_browser))) = None
   \<and> \<not> list_all isWhiteSpace
          (App.intent (app (setIntent (js ''  Create a values clarification exercise '')
                              initial_browser)))
   \<and> invokes (handleInvoke (Answered (Some (js ''thread_1'')))
                (setIntent (js ''  Create a values clarification exercise '') initial_browser))
       = [js ''Create a values clarification exercise'']"
  using
    handleInvoke_intent [of "setIntent (js ''   '') initial_browser"
      "Answered (Some (js ''thread_1''))"]
    handleInvoke_intent [of "setIntent (js ''  Create a values clarification exercise '')
      initial_browser" "Answered (Some (js ''thread_1''))"]
  by (simp add: setIntent_def initial_browser_def initial_app_def trim_def js_def isWhiteSpace_def)


section \<open>The order of the task list\<close>

lemma set_insert_by: "set (insert_by cmp x ys) = insert x (set ys)"
  by (induction ys) auto

lemma length_insert_by: "length (insert_by cmp x ys) = Suc (length ys)"
  by (induction ys) auto

lemma set_insertion: "set (foldr (insert_by cmp) xs []) = set xs"
  by (induction xs) (simp_all add: set_insert_by)

lemma length_insertion: "length (foldr (insert_by cmp) xs []) = length xs"
  by (induction xs) (simp_all add: length_insert_by)

text \<open>On dated tasks the comparator of \<open>fetchTasks\<close> is the difference of the times.\<close>

lemma by_created_desc_dated:
  "dated g a \<Longrightarrow> dated g b \<Longrightarrow>
     \<exists>ta tb. g (created_at a) = Some ta \<and> g (created_at b) = Some tb
       \<and> by_created_desc g a b = Some (tb - ta)"
  by (auto simp: dated_def by_created_desc_def)

lemma sort_value_dated:
  assumes "dated g a" "dated g b"
  obtains ta tb where "g (created_at a) = Some ta" "g (created_at b) = Some tb"
    "by_created_desc g a b \<noteq> None" "sort_value (by_created_desc g a b) = tb - ta"
proof -
  from by_created_desc_dated [OF assms] obtain ta tb where
    h: "g (created_at a) = Some ta" "g (created_at b) = Some tb"
       "by_created_desc g a b = Some (tb - ta)"
    by blast
  then have "by_created_desc g a b \<noteq> None" "sort_value (by_created_desc g a b) = tb - ta"
    by (simp_all add: sort_value_def)
  with h that show ?thesis by blast
qed

text \<open>So it is consistent on a list of dated tasks, \<dots>\<close>

lemma consistent_dated:
  assumes d: "\<forall>t\<in>set xs. dated g t"
  shows "consistent (by_created_desc g) xs"
proof -
  have nan: "by_created_desc g a b \<noteq> None" if "a \<in> set xs" "b \<in> set xs" for a b
    using that d by (meson sort_value_dated)
  have refl: "sort_value (by_created_desc g a a) = 0" if "a \<in> set xs" for a
  proof -
    from that d have "dated g a" by blast
    from sort_value_dated [OF this this] show ?thesis by (metis diff_self option.inject)
  qed
  have val: "\<exists>ta tb. g (created_at a) = Some ta \<and> g (created_at b) = Some tb
               \<and> sort_value (by_created_desc g a b) = tb - ta"
    if "a \<in> set xs" "b \<in> set xs" for a b
    using that d by (meson sort_value_dated)
  have sym: "sort_value (by_created_desc g b a) = 0"
    if "a \<in> set xs" "b \<in> set xs" "sort_value (by_created_desc g a b) = 0" for a b
    using val [OF that(1,2)] val [OF that(2,1)] that(3) by auto
  have tr:
    "(sort_value (by_created_desc g a b) = 0 \<and> sort_value (by_created_desc g b c) = 0
        \<longrightarrow> sort_value (by_created_desc g a c) = 0)
     \<and> (sort_value (by_created_desc g a b) < 0 \<and> sort_value (by_created_desc g b c) < 0
        \<longrightarrow> sort_value (by_created_desc g a c) < 0)
     \<and> (sort_value (by_created_desc g a b) > 0 \<and> sort_value (by_created_desc g b c) > 0
        \<longrightarrow> sort_value (by_created_desc g a c) > 0)"
    if "a \<in> set xs" "b \<in> set xs" "c \<in> set xs" for a b c
    using val [OF that(1,2)] val [OF that(2,3)] val [OF that(1,3)] by auto
  show ?thesis
    unfolding consistent_def list_all_iff
    using nan refl sym tr by blast
qed

text \<open>\<dots> and it is the order "created no earlier".\<close>

lemma newer_first_cmp:
  "dated g a \<Longrightarrow> dated g b \<Longrightarrow>
     newer_first g a b \<longleftrightarrow> sort_value (by_created_desc g a b) \<le> 0"
  by (auto simp: dated_def newer_first_def by_created_desc_def sort_value_def)

lemma newer_first_total:
  "dated g a \<Longrightarrow> dated g b \<Longrightarrow> newer_first g a b \<or> newer_first g b a"
  by (auto simp: dated_def newer_first_def)

lemma newer_first_trans:
  "newer_first g a b \<Longrightarrow> newer_first g b c \<Longrightarrow> newer_first g a c"
  by (auto simp: newer_first_def split: option.splits)

lemma sorted_insert_by:
  assumes "dated g x" "\<forall>y\<in>set ys. dated g y" "sorted_wrt (newer_first g) ys"
  shows "sorted_wrt (newer_first g) (insert_by (by_created_desc g) x ys)"
  using assms
proof (induction ys)
  case Nil
  then show ?case by simp
next
  case (Cons y ys)
  show ?case
  proof (cases "sort_value (by_created_desc g x y) \<le> 0")
    case True
    with Cons.prems have xy: "newer_first g x y" by (simp add: newer_first_cmp)
    with Cons.prems have "\<forall>z\<in>set ys. newer_first g x z"
      by (auto intro: newer_first_trans)
    with xy Cons.prems True show ?thesis by simp
  next
    case False
    with Cons.prems have "\<not> newer_first g x y" by (simp add: newer_first_cmp)
    with Cons.prems have yx: "newer_first g y x" using newer_first_total [of g x y] by auto
    from Cons have "sorted_wrt (newer_first g) (insert_by (by_created_desc g) x ys)" by simp
    with yx Cons.prems False show ?thesis by (auto simp: set_insert_by)
  qed
qed

lemma sorted_insertion:
  "\<forall>y\<in>set xs. dated g y \<Longrightarrow>
     sorted_wrt (newer_first g) (foldr (insert_by (by_created_desc g)) xs [])"
proof (induction xs)
  case Nil
  then show ?case by simp
next
  case (Cons x xs)
  then have "sorted_wrt (newer_first g) (foldr (insert_by (by_created_desc g)) xs [])" by simp
  moreover from Cons.prems
  have "\<forall>y\<in>set (foldr (insert_by (by_created_desc g)) xs []). dated g y"
    by (simp add: set_insertion)
  ultimately have
    "sorted_wrt (newer_first g)
       (insert_by (by_created_desc g) x (foldr (insert_by (by_created_desc g)) xs []))"
    using Cons.prems by (intro sorted_insert_by) simp_all
  then show ?case by simp
qed

text \<open>
  A task whose \<open>created_at\<close> is no date stands in no order to any task, so no arrangement
  of a list of two or more tasks that holds one has every adjacent pair in order.
\<close>

lemma undated_breaks_every_order:
  assumes "t \<in> set ts" "\<not> dated g t" "2 \<le> length ts"
  shows "\<exists>k. Suc k < length ts \<and> \<not> newer_first g (ts ! k) (ts ! Suc k)"
proof -
  have no: "\<not> newer_first g t u \<and> \<not> newer_first g u t" for u
    using assms(2) by (auto simp: dated_def newer_first_def split: option.splits)
  from assms(1) obtain i where i: "i < length ts" "ts ! i = t"
    by (auto simp: in_set_conv_nth)
  show ?thesis
  proof (cases i)
    case 0
    with i assms(3) no [of "ts ! Suc 0"] show ?thesis
      by (intro exI [of _ 0]) auto
  next
    case (Suc j)
    with i no [of "ts ! j"] show ?thesis
      by (intro exI [of _ j]) auto
  qed
qed

lemma mixed_fetch:
  "tasks (app (fetchTasks leave_in_place sample_getTime (Listed True (Some mixed_entries))
                 initial_browser)) = map to_task mixed_entries"
  by (simp add: fetchTasks_def array_sort_def consistent_def leave_in_place_def mixed_entries_def
        to_task_def by_created_desc_def sample_getTime_def js_def initial_browser_def)

text \<open>
  C6, as the claim states it, fails on a fetched list in which a \<open>created_at\<close> is no date.
  The comparator then returns \<open>NaN\<close>; an engine that takes \<open>NaN\<close> as 0 finds the three tasks
  below in order already and leaves them as fetched: the task of 1 January before the task
  of 3 January, and the undated task between them, in order with neither.
\<close>

theorem undated_task_list_oldest_first:
  "map thread_id
     (tasks (app (fetchTasks leave_in_place sample_getTime (Listed True (Some mixed_entries))
                    initial_browser)))
     = [js ''thread_a'', js ''thread_b'', js ''thread_c'']
   \<and> map (\<lambda>t. sample_getTime (created_at t))
       (tasks (app (fetchTasks leave_in_place sample_getTime (Listed True (Some mixed_entries))
                      initial_browser)))
     = [Some 1735689600000, None, Some 1735862400000]
   \<and> \<not> newer_first sample_getTime
         (tasks (app (fetchTasks leave_in_place sample_getTime (Listed True (Some mixed_entries))
                        initial_browser)) ! 0)
         (tasks (app (fetchTasks leave_in_place sample_getTime (Listed True (Some mixed_entries))
                        initial_browser)) ! 1)"
  unfolding mixed_fetch
  by (simp add: mixed_entries_def to_task_def newer_first_def sample_getTime_def js_def)

text \<open>
  C6, amended. After a successful fetch of a task list whose \<open>created_at\<close> are all dates,
  whatever the engine's sort does elsewhere, the list of the page holds the fetched tasks,
  most recently created first: at every adjacent pair the earlier position was created no
  earlier than the later one.
\<close>

theorem fetchTasks_newest_first:
  assumes "\<forall>e\<in>set entries. dated getTime (to_task e)"
    and "ts = tasks (app (fetchTasks engineSort getTime (Listed True (Some entries)) b))"
  shows "set ts = to_task ` set entries \<and> length ts = length entries
         \<and> (\<forall>k. Suc k < length ts \<longrightarrow> newer_first getTime (ts ! k) (ts ! Suc k))"
proof -
  from assms(1) have c: "consistent (by_created_desc getTime) (map to_task entries)"
    by (intro consistent_dated) simp
  have ts: "ts = foldr (insert_by (by_created_desc getTime)) (map to_task entries) []"
    by (simp add: assms(2) fetchTasks_def array_sort_def c)
  from assms(1) have "sorted_wrt (newer_first getTime) ts"
    unfolding ts by (intro sorted_insertion) simp
  then have "\<forall>k. Suc k < length ts \<longrightarrow> newer_first getTime (ts ! k) (ts ! Suc k)"
    by (simp add: sorted_wrt_iff_nth_less)
  then show ?thesis by (simp add: ts set_insertion length_insertion)
qed

lemma sample_dated: "\<forall>e\<in>set sample_entries. dated sample_getTime (to_task e)"
  by (simp add: sample_entries_def to_task_def dated_def sample_getTime_def js_def)

lemma sample_fetch:
  "map thread_id
     (tasks (app (fetchTasks engineSort sample_getTime (Listed True (Some sample_entries))
                    initial_browser)))
     = [js ''thread_b'', js ''thread_a'', js ''thread_c'']"
proof -
  from sample_dated have "consistent (by_created_desc sample_getTime) (map to_task sample_entries)"
    by (intro consistent_dated) simp
  then show ?thesis
    by (simp add: fetchTasks_def array_sort_def)
       (simp add: sample_entries_def to_task_def by_created_desc_def
          sample_getTime_def sort_value_def opt_or_else_def or_else_def js_def initial_browser_def)
qed

theorem fetchTasks_newest_first_witness:
  "list_all (\<lambda>e. dated sample_getTime (to_task e)) sample_entries
   \<and> map thread_id
       (tasks (app (fetchTasks leave_in_place sample_getTime (Listed True (Some sample_entries))
                      initial_browser)))
       = [js ''thread_b'', js ''thread_a'', js ''thread_c'']
   \<and> newer_first sample_getTime
         (tasks (app (fetchTasks leave_in_place sample_getTime (Listed True (Some sample_entries))
                        initial_browser)) ! 0)
         (tasks (app (fetchTasks leave_in_place sample_getTime (Listed True (Some sample_entries))
                        initial_browser)) ! 1)
   \<and> newer_first sample_getTime
         (tasks (app (fetchTasks leave_in_place sample_getTime (Listed True (Some sample_entries))
                        initial_browser)) ! 1)
         (tasks (app (fetchTasks leave_in_place sample_getTime (Listed True (Some sample_entries))
                        initial_browser)) ! 2)"
proof -
  let ?ts = "tasks (app (fetchTasks leave_in_place sample_getTime
                           (Listed True (Some sample_entries)) initial_browser))"
  from fetchTasks_newest_first [OF sample_dated refl, of leave_in_place initial_browser]
  have len: "length ?ts = length sample_entries"
    and adj: "\<forall>k. Suc k < length ?ts \<longrightarrow> newer_first sample_getTime (?ts ! k) (?ts ! Suc k)"
    by simp_all
  have "length sample_entries = 3"
    by (simp add: sample_entries_def)
  with len have three: "length ?ts = 3"
    by (simp only:)
  from adj three have "newer_first sample_getTime (?ts ! 0) (?ts ! Suc 0)"
    and "newer_first sample_getTime (?ts ! Suc 0) (?ts ! Suc (Suc 0))"
    by simp_all
  then have "newer_first sample_getTime (?ts ! 0) (?ts ! 1)"
    and "newer_first sample_getTime (?ts ! 1) (?ts ! 2)"
    by (simp_all add: numeral_2_eq_2)
  with sample_dated sample_fetch show ?thesis
    by (simp add: list_all_iff)
qed


section \<open>The polling loop stops\<close>

lemma removeAll_only: "set xs \<subseteq> {x} \<Longrightarrow> removeAll x xs = []"
  by (induction xs) auto

lemma one_timer_initial: "one_timer initial_browser"
  by (simp add: one_timer_def initial_browser_def)

lemma one_timer_clearPoll:
  "one_timer b \<Longrightarrow> live (clearPoll b) = [] \<and> pollIntervalRef (app (clearPoll b)) = None"
  by (auto simp: one_timer_def clearPoll_def clearInterval_def removeAll_only split: option.splits)

lemma one_timer_clearPoll': "one_timer b \<Longrightarrow> one_timer (clearPoll b)"
  using one_timer_clearPoll [of b] by (simp add: one_timer_def)

lemma one_timer_startPolling: "one_timer b \<Longrightarrow> one_timer (startPolling tid b)"
  by (auto simp: one_timer_def startPolling_def clearInterval_def Let_def split: option.splits)

lemma one_timer_tick: "one_timer b \<Longrightarrow> one_timer (tick i b)"
  by (simp add: one_timer_def tick_def split: option.splits prod.splits)

lemma one_timer_settle: "one_timer b \<Longrightarrow> one_timer (settle i outcome b)"
proof (cases "i \<in> set (inflight b)")
  case False
  assume "one_timer b"
  with False show ?thesis by (simp add: settle_def)
next
  case True
  assume o: "one_timer b"
  let ?b1 = "b\<lparr>inflight := remove1 i (inflight b)\<rparr>"
  from o have o1: "one_timer ?b1" by (simp add: one_timer_def)
  show ?thesis
  proof (cases outcome)
    case (Responded newStatus st)
    let ?b2 = "?b1\<lparr>app := (app ?b1)\<lparr>App.status := opt_or_else newStatus (js ''unknown''),
                                     currentState := st\<rparr>\<rparr>"
    from o1 have o2: "one_timer ?b2" by (simp add: one_timer_def)
    then have "one_timer (clearPoll ?b2)" by (rule one_timer_clearPoll')
    with o2 True Responded show ?thesis by (simp add: settle_def Let_def)
  next
    case Failed
    let ?b2 = "?b1\<lparr>app := (app ?b1)\<lparr>App.status := js ''error'',
                 App.error := Some (js ''Polling failed after multiple attempts'')\<rparr>\<rparr>"
    from o1 have o2: "one_timer ?b2" by (simp add: one_timer_def)
    then have "one_timer (clearPoll ?b2)" by (rule one_timer_clearPoll')
    with o1 True Failed show ?thesis
      by (simp add: settle_def Let_def split: option.splits prod.splits)
  qed
qed

lemma one_timer_handleInvoke: "one_timer b \<Longrightarrow> one_timer (handleInvoke outcome b)"
proof -
  assume o: "one_timer b"
  let ?b1 = "b\<lparr>app := (app b)\<lparr>App.status := js ''processing'', App.error := None,
                                currentState := None\<rparr>,
                invokes := invokes b @ [trim (App.intent (app b))]\<rparr>"
  from o have o1: "one_timer ?b1" by (simp add: one_timer_def)
  have f: "one_timer (invoke_failed err ?b1)" for err
    using o1 by (simp add: one_timer_def invoke_failed_def)
  have s: "one_timer (startPolling t (?b1\<lparr>app := (app ?b1)\<lparr>App.threadId := n\<rparr>\<rparr>))" for t n
    using o1 by (intro one_timer_startPolling) (simp add: one_timer_def)
  show ?thesis
  proof (cases "trim (App.intent (app b)) = []")
    case True
    with o show ?thesis by (simp add: handleInvoke_def one_timer_def)
  next
    case False
    with f s show ?thesis
      by (cases outcome) (simp_all add: handleInvoke_def Let_def)
  qed
qed

lemma one_timer_handleClear: "one_timer b \<Longrightarrow> one_timer (handleClear b)"
  using one_timer_clearPoll [of b] by (simp add: handleClear_def Let_def one_timer_def)

lemma one_timer_loadTask: "one_timer b \<Longrightarrow> one_timer (loadTask task outcome b)"
proof -
  assume o: "one_timer b"
  let ?b1 = "b\<lparr>app := (app b)\<lparr>App.threadId := Some (thread_id task),
                                App.status := Task.status task,
                                activeTab := Generator\<rparr>,
                gets := gets b @ [API_URL @ js ''/state/'' @ thread_id task]\<rparr>"
  from o have o1: "one_timer ?b1" by (simp add: one_timer_def)
  have s: "one_timer (startPolling t (?b1\<lparr>app := (app ?b1)\<lparr>currentState := st\<rparr>\<rparr>))" for t st
    using o1 by (intro one_timer_startPolling) (simp add: one_timer_def)
  from o1 have c: "one_timer (?b1\<lparr>app := (app ?b1)\<lparr>currentState := st\<rparr>\<rparr>)" for st
    by (simp add: one_timer_def)
  from o1 have e: "one_timer (?b1\<lparr>app := (app ?b1)\<lparr>App.error := x\<rparr>\<rparr>)" for x
    by (simp add: one_timer_def)
  show ?thesis
    using s c e by (cases outcome) (simp_all add: loadTask_def Let_def)
qed

lemma one_timer_fetchTasks:
  "one_timer b \<Longrightarrow> one_timer (fetchTasks engineSort getTime outcome b)"
  by (simp add: fetchTasks_def one_timer_def split: tasks_outcome.splits option.splits)

lemma one_timer_app_step: "one_timer b \<Longrightarrow> one_timer (app_step getTime b e)"
proof (cases e)
  case (Poll pe)
  assume "one_timer b"
  with Poll show ?thesis by (cases pe) (simp_all add: one_timer_tick one_timer_settle)
next
  case (SetIntent v)
  assume "one_timer b"
  with SetIntent show ?thesis by (simp add: setIntent_def one_timer_def)
qed (simp_all add: one_timer_handleInvoke one_timer_handleClear one_timer_loadTask
       one_timer_fetchTasks)

text \<open>Whatever happens to the page, at most one polling timer is live.\<close>

lemma one_timer_app_run: "one_timer b \<Longrightarrow> one_timer (app_run getTime b evs)"
  unfolding app_run_def
  by (induction evs arbitrary: b) (simp_all add: one_timer_app_step)

lemma tick_idle: "live b = [] \<Longrightarrow> tick i b = b"
  by (simp add: tick_def)

lemma settle_gets: "gets (settle i outcome b) = gets b"
  by (simp add: settle_def clearPoll_def clearInterval_def Let_def
        split: poll_outcome.splits option.splits prod.splits)

lemma settle_idle: "live b = [] \<Longrightarrow> live (settle i outcome b) = []"
  by (simp add: settle_def clearPoll_def clearInterval_def Let_def
        split: poll_outcome.splits option.splits prod.splits)

text \<open>With no live timer the loop sends nothing, however long it is left to itself.\<close>

lemma poll_run_idle:
  "live b = [] \<Longrightarrow> gets (poll_run b evs) = gets b \<and> live (poll_run b evs) = []"
  unfolding poll_run_def
proof (induction evs arbitrary: b)
  case Nil
  then show ?case by simp
next
  case (Cons e evs)
  show ?case
  proof (cases e)
    case (Tick i)
    with Cons show ?thesis by (simp add: tick_idle)
  next
    case (Settle i outcome)
    from Cons.prems have "live (settle i outcome b) = []" by (rule settle_idle)
    from Cons.IH [OF this] Settle show ?thesis by (simp add: settle_gets)
  qed
qed

lemma settle_stop:
  assumes "one_timer b" "i \<in> set (inflight b)" "s \<in> set stop_statuses"
  shows "live (settle i (Responded (Some s) st) b) = []
         \<and> pollIntervalRef (app (settle i (Responded (Some s) st) b)) = None"
proof -
  from assms(3) have ne: "s \<noteq> []" by (auto simp: stop_statuses_def js_def)
  let ?b2 = "b\<lparr>inflight := remove1 i (inflight b),
               app := (app b)\<lparr>App.status := s, currentState := st\<rparr>\<rparr>"
  from assms(1) have "one_timer ?b2" by (simp add: one_timer_def)
  from one_timer_clearPoll [OF this] assms(2,3) ne show ?thesis
    by (simp add: settle_def Let_def opt_or_else_def or_else_def)
qed

text \<open>
  C10. In any state the page can reach, when a poll in flight ends with the status
  completed, halted, error or rejected, the callback clears the timer: no polling timer is
  live any more, the ref is null, and from then on the polling loop, left to itself
  (timers firing, polls ending), sends no further state request.
\<close>

theorem polling_stops_on_final_status:
  assumes "b = app_run getTime initial_browser history"
    and "i \<in> set (inflight b)"
    and "s \<in> set stop_statuses"
  shows "live (settle i (Responded (Some s) st) b) = []
         \<and> pollIntervalRef (app (settle i (Responded (Some s) st) b)) = None
         \<and> gets (poll_run (settle i (Responded (Some s) st) b) later) =
             gets (settle i (Responded (Some s) st) b)"
proof -
  have "one_timer b" unfolding assms(1) by (rule one_timer_app_run [OF one_timer_initial])
  from settle_stop [OF this assms(2,3)] poll_run_idle show ?thesis by blast
qed

lemma polling_history_run:
  "gets (app_run getTime initial_browser polling_history) =
     [js ''http://localhost:8000/state/thread_1'', js ''http://localhost:8000/state/thread_1'']
   \<and> inflight (app_run getTime initial_browser polling_history) = [1]
   \<and> live (app_run getTime initial_browser polling_history) = [1]"
  by (simp add: app_run_def polling_history_def setIntent_def initial_browser_def initial_app_def
        handleInvoke_def trim_def isWhiteSpace_def js_def Let_def opt_or_else_def or_else_def
        startPolling_def tick_def settle_def stop_statuses_def API_URL_def)

theorem polling_stops_on_final_status_witness:
  "1 \<in> set (inflight (app_run sample_getTime initial_browser polling_history))
   \<and> js ''halted'' \<in> set stop_statuses
   \<and> live (app_run sample_getTime initial_browser polling_history) = [1]
   \<and> live (settle 1 (Responded (Some (js ''halted'')) (Some halted_state))
             (app_run sample_getTime initial_browser polling_history)) = []
   \<and> gets (poll_run
             (settle 1 (Responded (Some (js ''halted'')) (Some halted_state))
                (app_run sample_getTime initial_browser polling_history))
             [Tick 1, Tick 1, Settle 1 Failed, Tick 2]) =
       [js ''http://localhost:8000/state/thread_1'', js ''http://localhost:8000/state/thread_1'']"
proof -
  have i: "1 \<in> set (inflight (app_run sample_getTime initial_browser polling_history))"
    by (simp add: polling_history_run)
  have s: "js ''halted'' \<in> set stop_statuses"
    by (simp add: stop_statuses_def)
  from polling_stops_on_final_status [OF refl i s, of "Some halted_state"
         "[Tick 1, Tick 1, Settle 1 Failed, Tick 2]"] i s
  show ?thesis
    by (simp add: polling_history_run settle_gets)
qed

section \<open>The router\<close>

text \<open>
  C1. Whenever \<open>error\<close> is non-empty the router returns \<open>halt\<close>, whatever the human
  decision, the scores and the iteration count are: the error rule comes first.
\<close>

theorem route_error_halts:
  "has_error s \<Longrightarrow>
     route s = Halt
     \<and> route (s\<lparr>scores := sc, iteration_count := n, human_decision := d\<rparr>) = Halt"
  by (simp add: route_def has_error_def)

theorem route_error_halts_witness:
  "has_error failed_and_approved
   \<and> map_option approved (human_decision failed_and_approved) = Some True
   \<and> route failed_and_approved = Halt
   \<and> route (failed_and_approved\<lparr>GraphState.error := None\<rparr>) = Finalize
   \<and> route (failed_and_approved\<lparr>GraphState.error := None, human_decision := None\<rparr>) = Revise"
proof -
  have h: "has_error failed_and_approved"
    by (simp add: has_error_def failed_and_approved_def js_def)
  from route_error_halts [OF h] h show ?thesis
    by (simp add: route_def has_error_def failed_and_approved_def)
qed


section \<open>The history of drafts\<close>

lemma graph_router [simp]: "graph (router r) = graph r"
  by (simp add: router_def split: transition.splits)

lemma has_error_failure [simp]:
  "has_error (g\<lparr>GraphState.error := Some (failure_text f)\<rparr>)"
  by (cases f) (simp_all add: has_error_def js_def)

text \<open>A failed agent always halts the thread.\<close>

lemma agent_failed_eq:
  "agent_failed f r =
     r\<lparr>graph := (graph r)\<lparr>GraphState.error := Some (failure_text f)\<rparr>,
       at := HaltController, run_status := StHalted\<rparr>"
  by (simp add: agent_failed_def router_def route_def)






lemma invoke_started:
  "invoke (js ''Design a panic attack grounding exercise'') = Inr started"
  by (simp add: invoke_def started_def js_def)

lemma first_cycle_run:
  "graph (engine_run p started first_cycle) =
     \<lparr>draft = js ''Breathe in.'', draft_history = [js ''Breathe in.''],
      reviews =
        [\<lparr>agent = js ''SafetyGuardian'', notes' = js ''ok'', score = 9, reasoning = js ''safe''\<rparr>,
         \<lparr>agent = js ''ClinicalCritic'', notes' = js ''ok'', score = 8, reasoning = js ''sound''\<rparr>],
      scores = \<lparr>safety = 9, clinical = 8\<rparr>, iteration_count = 1,
      supervisor_feedback = js ''fine'',
      user_intent = js ''Design a panic attack grounding exercise'',
      GraphState.error = None, metadata = None, human_decision = None\<rparr>
   \<and> run_status (engine_run p started first_cycle) = StHalted
   \<and> at (engine_run p started first_cycle) = HaltController"
  by (cases p)
     (simp_all add: engine_run_def first_cycle_def started_def drafter_def reviewer_pool_def
        valid_review_def supervisor_synthesizer_def counted_def router_def route_def
        has_error_def js_def)





section \<open>The human decision in the state\<close>

lemma halted_after_first_cycle:
  "run_status (engine_run p started first_cycle) = StHalted"
  by (simp add: first_cycle_run)

text \<open>
  C3. The GraphState the engine persists has the fields draft, draft_history, reviews,
  scores, iteration_count, supervisor_feedback, user_intent, error, metadata and
  human_decision, and a state is what these ten hold. \<open>human_decision\<close> is optional:
  absent when the thread is created, untouched by every step of a node, and set by a
  resume call to the decision it carries, which is its \<open>approved\<close>, its \<open>feedback\<close> and its
  optional \<open>edited_draft\<close>; the resume leaves the reviews, scores, supervisor_feedback,
  iteration_count, error, metadata and user_intent as they are.
\<close>

theorem human_decision_in_state:
  "g = \<lparr>draft = draft g, draft_history = draft_history g, reviews = reviews g,
        scores = scores g, iteration_count = iteration_count g,
        supervisor_feedback = supervisor_feedback g, user_intent = user_intent g,
        GraphState.error = GraphState.error g, metadata = metadata g,
        human_decision = human_decision g\<rparr>
   \<and> (invoke i = Inr r0 \<longrightarrow> human_decision (graph r0) = None)
   \<and> ((\<forall>d'. ev \<noteq> ResumeCall d') \<longrightarrow>
        human_decision (graph (engine_step p r ev)) = human_decision (graph r))
   \<and> (resume d r = Inr r' \<longrightarrow>
        human_decision (graph r') = Some d
        \<and> d = \<lparr>approved = approved d, ResumePayload.feedback = ResumePayload.feedback d,
                edited_draft = edited_draft d\<rparr>
        \<and> reviews (graph r') = reviews (graph r)
        \<and> scores (graph r') = scores (graph r)
        \<and> supervisor_feedback (graph r') = supervisor_feedback (graph r)
        \<and> iteration_count (graph r') = iteration_count (graph r)
        \<and> GraphState.error (graph r') = GraphState.error (graph r)
        \<and> metadata (graph r') = metadata (graph r)
        \<and> user_intent (graph r') = user_intent (graph r))"
proof -
  have shape: "g = \<lparr>draft = draft g, draft_history = draft_history g, reviews = reviews g,
        scores = scores g, iteration_count = iteration_count g,
        supervisor_feedback = supervisor_feedback g, user_intent = user_intent g,
        GraphState.error = GraphState.error g, metadata = metadata g,
        human_decision = human_decision g\<rparr>"
    by simp
  have created: "invoke i = Inr r0 \<longrightarrow> human_decision (graph r0) = None"
    by (auto simp: invoke_def split: if_splits)
  have kept: "(\<forall>d'. ev \<noteq> ResumeCall d') \<longrightarrow>
        human_decision (graph (engine_step p r ev)) = human_decision (graph r)"
  proof (cases ev)
    case (DrafterReturns result)
    then show ?thesis by (cases result) (simp_all add: drafter_def agent_failed_eq)
  next
    case (ReviewersReturn s c)
    then show ?thesis by (cases s; cases c) (simp_all add: reviewer_pool_def agent_failed_eq)
  next
    case (SynthesizerReturns result)
    then show ?thesis
      by (cases result) (simp_all add: supervisor_synthesizer_def agent_failed_eq)
  qed simp_all
  have set: "resume d r = Inr r' \<longrightarrow>
        human_decision (graph r') = Some d
        \<and> d = \<lparr>approved = approved d, ResumePayload.feedback = ResumePayload.feedback d,
                edited_draft = edited_draft d\<rparr>
        \<and> reviews (graph r') = reviews (graph r)
        \<and> scores (graph r') = scores (graph r)
        \<and> supervisor_feedback (graph r') = supervisor_feedback (graph r)
        \<and> iteration_count (graph r') = iteration_count (graph r)
        \<and> GraphState.error (graph r') = GraphState.error (graph r)
        \<and> metadata (graph r') = metadata (graph r)
        \<and> user_intent (graph r') = user_intent (graph r)"
    by (cases "edited_draft d") (auto simp: resume_def Let_def split: if_splits)
  from shape created kept set show ?thesis by blast
qed

theorem human_decision_in_state_witness:
  "invoke (js ''Design a panic attack grounding exercise'') = Inr started
   \<and> human_decision (graph started) = None
   \<and> human_decision (graph (engine_run AtCycleEnd started first_cycle)) = None
   \<and> map_sum id (\<lambda>r'. human_decision (graph r'))
       (resume rejected_edit (engine_run AtCycleEnd started first_cycle)) =
     Inr (Some \<lparr>approved = False, ResumePayload.feedback = js ''too vague'',
                edited_draft = Some (js ''Breathe out.'')\<rparr>)"
proof -
  let ?r = "engine_run AtCycleEnd started first_cycle"
  let ?r' = "?r\<lparr>at := SupervisorSynthesizer, run_status := StResuming,
               graph := (graph ?r)\<lparr>human_decision := Some rejected_edit,
                          draft := js ''Breathe out.'',
                          draft_history := draft_history (graph ?r) @ [js ''Breathe out.'']\<rparr>\<rparr>"
  have res: "resume rejected_edit ?r = Inr ?r'"
    by (simp add: resume_def Let_def halted_after_first_cycle rejected_edit_def)
       (simp add: first_cycle_run js_def)
  from human_decision_in_state [where g = "graph started"
         and i = "js ''Design a panic attack grounding exercise''" and ?r0.0 = started
         and ev = Continue and p = AtCycleEnd and r = ?r and d = rejected_edit and r' = ?r']
    invoke_started res
  have "human_decision (graph started) = None" "human_decision (graph ?r') = Some rejected_edit"
    by simp_all
  with invoke_started res show ?thesis
    by (simp add: first_cycle_run rejected_edit_def)
qed


section \<open>The reviews in the state\<close>

lemma reviews_engine_step:
  "reviews (graph (engine_step p r ev)) = reviews (graph r)
   \<or> (\<exists>s c. ev = ReviewersReturn (Inr s) (Inr c) \<and> valid_review s \<and> valid_review c
         \<and> reviews (graph (engine_step p r ev)) = [s, c])"
proof (cases ev)
  case (DrafterReturns result)
  then show ?thesis by (cases result) (simp_all add: drafter_def agent_failed_eq)
next
  case (ReviewersReturn s c)
  then show ?thesis by (cases s; cases c) (simp_all add: reviewer_pool_def agent_failed_eq)
next
  case (SynthesizerReturns result)
  then show ?thesis by (cases result) (simp_all add: supervisor_synthesizer_def agent_failed_eq)
next
  case Continue
  then show ?thesis by simp
next
  case (ResumeCall d)
  then show ?thesis by (cases "edited_draft d") (simp_all add: resume_def Let_def)
qed

lemma reviews_valid_step:
  "list_all valid_review (reviews (graph r)) \<Longrightarrow>
     list_all valid_review (reviews (graph (engine_step p r ev)))"
  using reviews_engine_step [of p r ev] by auto

lemma reviews_valid_run:
  "list_all valid_review (reviews (graph r)) \<Longrightarrow>
     list_all valid_review (reviews (graph (engine_run p r evs)))"
  unfolding engine_run_def
  by (induction evs arbitrary: r) (simp_all add: reviews_valid_step)

lemma reviews_invoke: "invoke i = Inr r \<Longrightarrow> reviews (graph r) = []"
  by (auto simp: invoke_def split: if_splits)

lemma out_of_range_run:
  "reviews (graph (engine_run p started out_of_range_reviews)) = []
   \<and> GraphState.error (graph (engine_run p started out_of_range_reviews)) = Some (js ''ParseFailure'')
   \<and> run_status (engine_run p started out_of_range_reviews) = StHalted"
  by (cases p)
     (simp_all add: engine_run_def out_of_range_reviews_def started_def drafter_def
        reviewer_pool_def valid_review_def agent_failed_eq counted_def)

text \<open>
  C7. A Review is what its four fields agent, notes, score and reasoning hold. In every
  state the engine can reach from an \<open>invoke\<close>, the score of every review in \<open>reviews\<close> is
  an integer in 0..10. No step changes a single review: a step leaves \<open>reviews\<close> as it is,
  or it is the ReviewerPool's, which replaces the list by the batch of the two new reviews.
\<close>

theorem reviews_in_range_and_replaced_whole:
  assumes "invoke i = Inr r0" and "r = engine_run p r0 evs"
  shows "x = \<lparr>agent = agent x, notes' = notes' x, score = score x, reasoning = reasoning x\<rparr>
         \<and> list_all (\<lambda>y. 0 \<le> score y \<and> score y \<le> 10) (reviews (graph r))
         \<and> (reviews (graph (engine_step p r ev)) = reviews (graph r)
              \<or> (\<exists>s c. ev = ReviewersReturn (Inr s) (Inr c)
                    \<and> reviews (graph (engine_step p r ev)) = [s, c]))"
proof -
  from reviews_invoke [OF assms(1)] have "list_all valid_review (reviews (graph r0))"
    by simp
  then have "list_all valid_review (reviews (graph r))"
    unfolding assms(2) by (rule reviews_valid_run)
  then have range: "list_all (\<lambda>y. 0 \<le> score y \<and> score y \<le> 10) (reviews (graph r))"
    by (simp add: list_all_iff valid_review_def)
  have whole: "reviews (graph (engine_step p r ev)) = reviews (graph r)
              \<or> (\<exists>s c. ev = ReviewersReturn (Inr s) (Inr c)
                    \<and> reviews (graph (engine_step p r ev)) = [s, c])"
    using reviews_engine_step [of p r ev] by blast
  have "x = \<lparr>agent = agent x, notes' = notes' x, score = score x, reasoning = reasoning x\<rparr>"
    by simp
  with range whole show ?thesis by blast
qed

theorem reviews_in_range_and_replaced_whole_witness:
  "invoke (js ''Design a panic attack grounding exercise'') = Inr started
   \<and> map score (reviews (graph (engine_run AtCycleEnd started first_cycle))) = [9, 8]
   \<and> list_all (\<lambda>y. 0 \<le> score y \<and> score y \<le> 10)
       (reviews (graph (engine_run AtCycleEnd started first_cycle)))
   \<and> reviews (graph (engine_run AtCycleEnd started out_of_range_reviews)) = []
   \<and> run_status (engine_run AtCycleEnd started out_of_range_reviews) = StHalted"
  using reviews_in_range_and_replaced_whole [OF invoke_started refl, of _ AtCycleEnd first_cycle
          Continue]
    invoke_started out_of_range_run [of AtCycleEnd]
  by (simp add: first_cycle_run)


section \<open>An edited draft at the halt\<close>

text \<open>
  C2. The rejection path of the review screen drops the edit: with the editor's text
  different from \<open>state.draft\<close>, the one request \<open>handleReject\<close> sends has no \<open>edited_draft\<close>,
  where \<open>handleApprove\<close> in the same state sends it. The edited draft is not carried with
  the resume, and cannot be appended to \<open>draft_history\<close>.
\<close>

theorem reject_carries_no_edited_draft:
  "editedDraft edited_review = js ''Breathe out.''
   \<and> draft (state edited_review) = js ''Breathe in.''
   \<and> editedDraft edited_review \<noteq> draft (state edited_review)
   \<and> map edited_draft (posted (snd (handleReject edited_review Resolved))) = [None]
   \<and> map approved (posted (snd (handleReject edited_review Resolved))) = [False]
   \<and> map edited_draft (posted (snd (handleApprove edited_review Resolved))) =
       [Some (js ''Breathe out.'')]"
  by (simp add: posted_handleReject posted_handleApprove edited_review_def setEditedDraft_def
        mount_def halted_state_def js_def)

end
